theory Spec2Isabelle
  imports Complex_Main
begin

unbundle bit_operations_syntax

section \<open>The seeded generator (class SeededRandom)\<close>

text \<open>
  Python integers are unbounded, so the generator state is an \<open>int\<close> and every
  \<open>& 0xFFFFFFFF\<close> of the source is written out. \<open>>>\<close> on a Python integer is
  \<open>drop_bit\<close>. The value returned by \<open>next\<close> is a quotient of an integer below
  \<open>2 ^ 32\<close> by \<open>2 ^ 32\<close>; such a quotient is exactly representable as a double, so
  the float is modelled by the real number it denotes.
\<close>

definition SeededRandom :: "int \<Rightarrow> int" where
  "SeededRandom seed = seed AND 0xFFFFFFFF"

definition rng_next :: "int \<Rightarrow> real \<times> int" where
  "rng_next seed =
     (let t0 = (seed + 0x6D2B79F5) AND 0xFFFFFFFF;
          t1 = ((t0 XOR (drop_bit 15 t0)) * (t0 OR 1)) AND 0xFFFFFFFF;
          t2 = (t1 XOR ((t1 + ((t1 XOR (drop_bit 7 t1)) * (t1 OR 61))) AND 0xFFFFFFFF))
                 AND 0xFFFFFFFF
      in (real_of_int (drop_bit 0 (t2 XOR (drop_bit 14 t2))) / 4294967296, t0))"

text \<open>The first \<open>n\<close> values returned by successive calls of \<open>next\<close>.\<close>

primrec rng_draws :: "nat \<Rightarrow> int \<Rightarrow> real list" where
  "rng_draws 0 seed = []"
| "rng_draws (Suc n) seed = (case rng_next seed of (u, seed') \<Rightarrow> u # rng_draws n seed')"

text \<open>The generator state after \<open>n\<close> calls of \<open>next\<close>.\<close>

primrec rng_skip :: "nat \<Rightarrow> int \<Rightarrow> int" where
  "rng_skip 0 seed = seed"
| "rng_skip (Suc n) seed = rng_skip n (snd (rng_next seed))"

text \<open>
  The Mulberry32 step as the specification words it, with \<open>mod 2 ^ 32\<close> where the
  specification writes it. It is compared with \<open>rng_next\<close> below.
\<close>

definition mulberry32_spec :: "int \<Rightarrow> real \<times> int" where
  "mulberry32_spec s =
     (let s' = (s + 0x6D2B79F5) mod 2 ^ 32;
          t = s';
          t = ((t XOR (drop_bit 15 t)) * (t OR 1)) mod 2 ^ 32;
          t = (t XOR (t + ((t XOR (drop_bit 7 t)) * (t OR 61)) mod 2 ^ 32)) mod 2 ^ 32
      in (real_of_int ((t XOR (drop_bit 14 t)) mod 2 ^ 32) / 2 ^ 32, s'))"

section \<open>Configuration\<close>

definition minDistance :: int where
  "minDistance = 5"

definition maxAttempts :: nat where
  "maxAttempts = 50"

definition gridWidth :: int where
  "gridWidth = 72"

definition gridHeight :: int where
  "gridHeight = 48"

definition cellSize :: real where
  "cellSize = real_of_int minDistance / sqrt 2"

definition gridCols :: int where
  "gridCols = \<lceil>real_of_int gridWidth / cellSize\<rceil>"

definition gridRows :: int where
  "gridRows = \<lceil>real_of_int gridHeight / cellSize\<rceil>"

section \<open>Points, zones and the grid\<close>

text \<open>
  The dictionaries \<open>{"x": .., "y": ..}\<close> and \<open>{"x": .., "y": .., "radius": ..}\<close> are
  records. Coordinates are Python integers everywhere a point is stored or tested.
  The module-level list \<open>excludedZones\<close> is a parameter \<open>zones\<close> of every function
  that reads it.
\<close>

record point =
  px :: int
  py :: int

record zone =
  zx :: int
  zy :: int
  radius :: int

type_synonym grid = "point option list list"

text \<open>Python's \<open>int()\<close> of a float truncates towards zero.\<close>

definition py_int :: "real \<Rightarrow> int" where
  "py_int r = (if 0 \<le> r then \<lfloor>r\<rfloor> else \<lceil>r\<rceil>)"

text \<open>
  \<open>math.sqrt((x1 - x2)**2 + (y1 - y2)**2)\<close>, and the test \<open>distance < r\<close> the source
  makes of it. Floating-point arithmetic is idealised as real arithmetic: for integers
  of the size that occurs here (coordinates within a few units of the domain) the
  correctly rounded square root compares with an integer exactly as the real one does.
  The two agree as long as the coordinates and the radius of a zone stay below \<open>2 ^ 26\<close>
  in absolute value, as those of the source's zone do; for larger zones the results on
  \<open>distance\<close> are results about the real distance.
\<close>

definition distance :: "int \<Rightarrow> int \<Rightarrow> int \<Rightarrow> int \<Rightarrow> real" where
  "distance x1 y1 x2 y2 = sqrt (real_of_int ((x1 - x2) ^ 2 + (y1 - y2) ^ 2))"

definition distance_lt :: "int \<Rightarrow> int \<Rightarrow> int \<Rightarrow> int \<Rightarrow> int \<Rightarrow> bool" where
  "distance_lt x1 y1 x2 y2 r \<longleftrightarrow> distance x1 y1 x2 y2 < real_of_int r"

primrec isInExcludedZone :: "zone list \<Rightarrow> point \<Rightarrow> bool" where
  "isInExcludedZone [] point = False"
| "isInExcludedZone (zone # zones) point =
     (if distance_lt (px point) (py point) (zx zone) (zy zone) (radius zone) then True
      else isInExcludedZone zones point)"

text \<open>\<open>int(v / cellSize)\<close>, the grid index of a coordinate.\<close>

definition cellIndex :: "int \<Rightarrow> int" where
  "cellIndex v = py_int (real_of_int v / cellSize)"

text \<open>
  An evaluator for \<open>cellIndex\<close> in integer arithmetic: the largest \<open>k \<le> n\<close> with
  \<open>25 * k\<^sup>2 \<le> 2 * v\<^sup>2\<close>. It is not part of the source; it is proved equal to
  \<open>cellIndex\<close> below and serves to compute it.
\<close>

primrec cell_search :: "nat \<Rightarrow> int \<Rightarrow> int" where
  "cell_search 0 v = 0"
| "cell_search (Suc n) v =
     (if 25 * (int (Suc n)) ^ 2 \<le> 2 * v ^ 2 then int (Suc n) else cell_search n v)"

definition empty_grid :: grid where
  "empty_grid = replicate (nat gridRows) (replicate (nat gridCols) None)"

definition insertIntoGrid :: "grid \<Rightarrow> point \<Rightarrow> grid" where
  "insertIntoGrid g point =
     (let gridX = cellIndex (px point);
          gridY = cellIndex (py point)
      in if 0 \<le> gridY \<and> gridY < gridRows \<and> 0 \<le> gridX \<and> gridX < gridCols
         then g[nat gridY := (g ! nat gridY)[nat gridX := Some point]]
         else g)"

text \<open>
  The two nested \<open>for\<close> loops over \<open>range(-2, 3)\<close> with their early \<open>return True\<close>:
  the result is \<open>True\<close> exactly when some \<open>(dy, dx)\<close> passes the test.
\<close>

definition hasNearbyPoints :: "grid \<Rightarrow> point \<Rightarrow> bool" where
  "hasNearbyPoints g point =
     (let gridX = cellIndex (px point);
          gridY = cellIndex (py point)
      in list_ex (\<lambda>dy. list_ex (\<lambda>dx.
           (let checkX = gridX + dx;
                checkY = gridY + dy
            in 0 \<le> checkY \<and> checkY < gridRows \<and> 0 \<le> checkX \<and> checkX < gridCols \<and>
               (case g ! nat checkY ! nat checkX of
                  None \<Rightarrow> False
                | Some existingPoint \<Rightarrow>
                    distance_lt (px point) (py point) (px existingPoint) (py existingPoint)
                      minDistance))) [-2..2]) [-2..2])"

definition isInBounds :: "point \<Rightarrow> bool" where
  "isInBounds point \<longleftrightarrow>
     0 \<le> px point \<and> px point < gridWidth \<and> 0 \<le> py point \<and> py point < gridHeight"

section \<open>The initial point\<close>

text \<open>
  The loop \<open>for _ in range(1000)\<close>, by recursion on the attempts left. Each attempt
  draws twice, \<open>x\<close> first. The result is \<open>None\<close> when no attempt succeeded, as the
  variable \<open>initial\<close> of the source is; the generator state is returned with it.
\<close>

primrec find_initial :: "zone list \<Rightarrow> nat \<Rightarrow> int \<Rightarrow> point option \<times> int" where
  "find_initial zones 0 seed = (None, seed)"
| "find_initial zones (Suc n) seed =
     (case rng_next seed of (u1, seed1) \<Rightarrow>
      case rng_next seed1 of (u2, seed2) \<Rightarrow>
        (let candidate = \<lparr>px = py_int (u1 * real_of_int gridWidth),
                          py = py_int (u2 * real_of_int gridHeight)\<rparr>
         in if \<not> isInExcludedZone zones candidate then (Some candidate, seed2)
            else find_initial zones n seed2))"

section \<open>The main loop\<close>

text \<open>Every \<open>print\<close> of the source is one event, with the values it formats.\<close>

datatype event =
    InitialLine point
  | BlankLine
  | IterationLine nat
  | SizesLine nat nat
  | SelectedLine point
  | FoundLine point nat
  | FailedLine nat
  | RejectionsLine nat nat nat
  | StoppingLine
  | FinalLine nat
  | PointsLine "point list"

datatype error = TypeError | IndexError

record rejections =
  bounds :: nat
  excluded :: nat
  nearby :: nat

record sim =
  points :: "point list"
  activeList :: "point list"
  grid :: grid
  rng :: int
  iteration :: nat
  trace :: "event list"

text \<open>
  The candidate of one attempt is
  \<open>round(point.x + radius * cos(angle)), round(point.y + radius * sin(angle))\<close> with
  \<open>angle = u1 * pi * 2\<close> and \<open>radius = minDistance * (1 + u2)\<close>. It is computed by the
  floating-point library (\<open>math.cos\<close>, \<open>math.sin\<close>, \<open>round\<close>), which is outside the
  program; the model takes it as a parameter \<open>gen\<close> from the selected point and the
  two draws to the candidate, and every result below holds for every \<open>gen\<close>.
\<close>

type_synonym gen = "point \<Rightarrow> real \<Rightarrow> real \<Rightarrow> point"

text \<open>
  The loop \<open>for i in range(maxAttempts)\<close>: \<open>n\<close> attempts are left and \<open>i\<close> is the loop
  variable. The result is the accepted candidate with the value of \<open>i\<close> at the
  \<open>break\<close>, or \<open>None\<close> when the loop ran out (\<open>found\<close> stayed \<open>False\<close>).
\<close>

primrec try_place ::
  "gen \<Rightarrow> zone list \<Rightarrow> grid \<Rightarrow> point \<Rightarrow> nat \<Rightarrow> nat \<Rightarrow> int \<Rightarrow> rejections \<Rightarrow>
     (point \<times> nat) option \<times> rejections \<times> int" where
  "try_place g zones gr point 0 i seed rr = (None, rr, seed)"
| "try_place g zones gr point (Suc n) i seed rr =
     (case rng_next seed of (u1, seed1) \<Rightarrow>
      case rng_next seed1 of (u2, seed2) \<Rightarrow>
        (let candidate = g point u1 u2
         in if \<not> isInBounds candidate
              then try_place g zones gr point n (Suc i) seed2 (rr\<lparr>bounds := bounds rr + 1\<rparr>)
            else if isInExcludedZone zones candidate
              then try_place g zones gr point n (Suc i) seed2 (rr\<lparr>excluded := excluded rr + 1\<rparr>)
            else if hasNearbyPoints gr candidate
              then try_place g zones gr point n (Suc i) seed2 (rr\<lparr>nearby := nearby rr + 1\<rparr>)
            else (Some (candidate, i), rr, seed2)))"

text \<open>Python list indexing and \<open>pop\<close>: a negative index counts from the end, an index
  out of range raises \<open>IndexError\<close> (here \<open>None\<close>).\<close>

definition py_getitem :: "'a list \<Rightarrow> int \<Rightarrow> 'a option" where
  "py_getitem xs i =
     (let n = int (length xs); j = (if i < 0 then n + i else i)
      in if 0 \<le> j \<and> j < n then Some (xs ! nat j) else None)"

definition py_pop :: "'a list \<Rightarrow> int \<Rightarrow> 'a list option" where
  "py_pop xs i =
     (let n = int (length xs); j = (if i < 0 then n + i else i)
      in if 0 \<le> j \<and> j < n then Some (take (nat j) xs @ drop (Suc (nat j)) xs) else None)"

text \<open>The end of an iteration: the blank line, then the cap on \<open>iteration\<close>. The flag
  says whether the loop was left by \<open>break\<close>.\<close>

definition end_of_iteration :: "sim \<Rightarrow> sim \<times> bool" where
  "end_of_iteration st =
     (let st1 = st\<lparr>trace := trace st @ [BlankLine]\<rparr>
      in if iteration st1 > 20 then (st1\<lparr>trace := trace st1 @ [StoppingLine]\<rparr>, True)
         else (st1, False))"

text \<open>One pass through the body of the \<open>while\<close> loop. An exception carries the output
  printed before it.\<close>

definition loop_body :: "gen \<Rightarrow> zone list \<Rightarrow> sim \<Rightarrow> (error \<times> event list) + (sim \<times> bool)" where
  "loop_body g zones st =
     (let iteration' = iteration st + 1
      in case rng_next (rng st) of (u, seed1) \<Rightarrow>
         (let randomIndex = py_int (u * real (length (activeList st)))
          in case py_getitem (activeList st) randomIndex of
               None \<Rightarrow> Inl (IndexError, trace st)
             | Some point \<Rightarrow>
               (let out1 = trace st @
                      [IterationLine iteration',
                       SizesLine (length (activeList st)) (length (points st)),
                       SelectedLine point]
                in case try_place g zones (grid st) point maxAttempts 0 seed1
                          \<lparr>bounds = 0, excluded = 0, nearby = 0\<rparr> of
                     (Some (candidate, i), rr, seed2) \<Rightarrow>
                       Inr (end_of_iteration
                         (st\<lparr>points := points st @ [candidate],
                             activeList := activeList st @ [candidate],
                             grid := insertIntoGrid (grid st) candidate,
                             rng := seed2,
                             iteration := iteration',
                             trace := out1 @ [FoundLine candidate (i + 1)]\<rparr>))
                   | (None, rr, seed2) \<Rightarrow>
                       (let out2 = out1 @
                              [FailedLine maxAttempts,
                               RejectionsLine (bounds rr) (excluded rr) (nearby rr)]
                        in case py_pop (activeList st) randomIndex of
                             None \<Rightarrow> Inl (IndexError, out2)
                           | Some activeList' \<Rightarrow>
                               Inr (end_of_iteration
                                 (st\<lparr>activeList := activeList',
                                     rng := seed2,
                                     iteration := iteration',
                                     trace := out2\<rparr>))))))"

text \<open>The \<open>while\<close> loop. A run that never left the loop would be \<open>None\<close>.\<close>

partial_function (option) main_loop ::
  "gen \<Rightarrow> zone list \<Rightarrow> sim \<Rightarrow> ((error \<times> event list) + sim) option" where
  "main_loop g zones st =
     (if length (activeList st) > 0 \<and> length (points st) < 15 then
        (case loop_body g zones st of
           Inl e \<Rightarrow> Some (Inl e)
         | Inr (st', brk) \<Rightarrow> if brk then Some (Inr st') else main_loop g zones st')
      else Some (Inr st))"

text \<open>
  The whole module. The first \<open>print\<close> reads \<open>initial['x']\<close>; when \<open>initial\<close> is \<open>None\<close>
  that raises \<open>TypeError\<close> before anything is printed.
\<close>

definition run :: "gen \<Rightarrow> zone list \<Rightarrow> int \<Rightarrow> ((error \<times> event list) + sim) option" where
  "run g zones seed0 =
     (case find_initial zones 1000 (SeededRandom seed0) of
        (None, seed) \<Rightarrow> Some (Inl (TypeError, []))
      | (Some initial, seed) \<Rightarrow>
          (case main_loop g zones
                  \<lparr>points = [initial], activeList = [initial],
                   grid = insertIntoGrid empty_grid initial,
                   rng = seed, iteration = 0,
                   trace = [InitialLine initial, BlankLine]\<rparr> of
             None \<Rightarrow> None
           | Some (Inl e) \<Rightarrow> Some (Inl e)
           | Some (Inr st) \<Rightarrow>
               Some (Inr (st\<lparr>trace := trace st @
                                [FinalLine (length (points st)), PointsLine (points st)]\<rparr>))))"

text \<open>Two cells lie within the 5 by 5 search window of each other.\<close>

definition in_window :: "point \<Rightarrow> point \<Rightarrow> bool" where
  "in_window p q \<longleftrightarrow>
     \<bar>cellIndex (px p) - cellIndex (px q)\<bar> \<le> 2 \<and> \<bar>cellIndex (py p) - cellIndex (py q)\<bar> \<le> 2"

text \<open>
  The zone list of the source, and data to run the model on: a candidate generator that
  ignores its draws and always proposes the point 3 to the left and 8 below the selected
  one (a point of the annulus, at distance \<open>sqrt 73\<close>), and the state in which the run
  with it, the zones of the source and the seed 12345 of the source ends.
\<close>

definition excludedZones :: "zone list" where
  "excludedZones = [\<lparr>zx = 36, zy = 24, radius = 1\<rparr>]"

definition fixed_gen :: gen where
  "fixed_gen point u1 u2 = \<lparr>px = px point - 3, py = py point - 8\<rparr>"

definition example_final :: sim where
  "example_final =
     \<lparr>points = [\<lparr>px = 70, py = 14\<rparr>, \<lparr>px = 67, py = 6\<rparr>],
      activeList = [],
      grid = insertIntoGrid (insertIntoGrid empty_grid \<lparr>px = 70, py = 14\<rparr>)
               \<lparr>px = 67, py = 6\<rparr>,
      rng = 1177013588,
      iteration = 3,
      trace =
        [InitialLine \<lparr>px = 70, py = 14\<rparr>, BlankLine,
         IterationLine 1, SizesLine 1 1, SelectedLine \<lparr>px = 70, py = 14\<rparr>,
         FoundLine \<lparr>px = 67, py = 6\<rparr> 1, BlankLine,
         IterationLine 2, SizesLine 2 2, SelectedLine \<lparr>px = 70, py = 14\<rparr>,
         FailedLine 50, RejectionsLine 0 0 50, BlankLine,
         IterationLine 3, SizesLine 1 2, SelectedLine \<lparr>px = 67, py = 6\<rparr>,
         FailedLine 50, RejectionsLine 50 0 0, BlankLine,
         FinalLine 2, PointsLine [\<lparr>px = 70, py = 14\<rparr>, \<lparr>px = 67, py = 6\<rparr>]]\<rparr>"

section \<open>The loop invariant\<close>

text \<open>The grid entry of the cell a point falls in.\<close>

definition cell_at :: "grid \<Rightarrow> point \<Rightarrow> point option" where
  "cell_at g p = g ! nat (cellIndex (py p)) ! nat (cellIndex (px p))"

definition grid_ok :: "grid \<Rightarrow> bool" where
  "grid_ok g \<longleftrightarrow> length g = nat gridRows \<and> (\<forall>row \<in> set g. length row = nat gridCols)"

text \<open>The test \<open>distance < minDistance\<close> between two points.\<close>

definition too_close :: "point \<Rightarrow> point \<Rightarrow> bool" where
  "too_close p q \<longleftrightarrow> distance_lt (px p) (py p) (px q) (py q) minDistance"

text \<open>The condition of the \<open>while\<close> loop.\<close>

definition loop_guard :: "sim \<Rightarrow> bool" where
  "loop_guard st \<longleftrightarrow> length (activeList st) > 0 \<and> length (points st) < 15"

text \<open>
  What holds of the state whenever the loop condition is evaluated and when the loop is
  left: the grid has its dimensions; every placed point is in bounds, outside every
  zone and stored in its own cell; two placed points whose cells lie in each other's
  window are not too close; the counts printed for a failed step add up.
\<close>

definition sim_inv :: "zone list \<Rightarrow> sim \<Rightarrow> bool" where
  "sim_inv zones st \<longleftrightarrow>
     grid_ok (grid st) \<and>
     (\<forall>p \<in> set (points st).
        isInBounds p \<and> \<not> isInExcludedZone zones p \<and> cell_at (grid st) p = Some p) \<and>
     (\<forall>i j. i < j \<and> j < length (points st) \<and> in_window (points st ! i) (points st ! j)
        \<longrightarrow> \<not> too_close (points st ! i) (points st ! j)) \<and>
     1 \<le> length (points st) \<and> length (points st) \<le> 15 \<and>
     set (activeList st) \<subseteq> set (points st) \<and>
     (\<forall>b e n. RejectionsLine b e n \<in> set (trace st) \<longrightarrow> b + e + n = maxAttempts)"

text \<open>What holds in addition whenever the loop condition is evaluated.\<close>

definition head_inv :: "sim \<Rightarrow> bool" where
  "head_inv st \<longleftrightarrow> iteration st \<le> 20 \<and> StoppingLine \<notin> set (trace st)"

section \<open>Properties of the generator\<close>

lemma and_mask32: "(x::int) AND 0xFFFFFFFF = x mod 2 ^ 32"
proof -
  have "(0xFFFFFFFF::int) = mask 32" by (simp add: mask_eq_exp_minus_1)
  then have "x AND 0xFFFFFFFF = take_bit 32 x" by (simp only: take_bit_eq_mask)
  also have "\<dots> = x mod 2 ^ 32" by (rule take_bit_eq_mod)
  finally show ?thesis .
qed

lemma xor_mod32: "((a::int) XOR b) mod 2 ^ 32 = (a mod 2 ^ 32) XOR (b mod 2 ^ 32)"
proof -
  have "take_bit 32 (a XOR b) = take_bit 32 a XOR take_bit 32 b" by (rule take_bit_xor)
  then show ?thesis by (simp only: take_bit_eq_mod)
qed

lemma drop_bit_le_self:
  assumes "0 \<le> (t::int)"
  shows "drop_bit n t \<le> t"
proof -
  have "t div 2 ^ n \<le> t div 1" using assms by (intro zdiv_mono2) auto
  then show ?thesis by (simp add: drop_bit_eq_div)
qed

lemma xor_shift_range:
  assumes "0 \<le> (t::int)" "t < 2 ^ 32"
  shows "0 \<le> t XOR drop_bit n t" "t XOR drop_bit n t < 2 ^ 32"
proof -
  have d: "0 \<le> drop_bit n t" "drop_bit n t < 2 ^ 32"
    using assms drop_bit_le_self [of t n] by auto
  show "0 \<le> t XOR drop_bit n t" using assms(1) d(1) by simp
  show "t XOR drop_bit n t < 2 ^ 32"
    using assms d by (intro XOR_upper) auto
qed

lemma xor_shift_small:
  assumes "0 \<le> (t::int)" "t < 2 ^ 32"
  shows "(t XOR drop_bit n t) mod 2 ^ 32 = t XOR drop_bit n t"
  using xor_shift_range [OF assms] by (intro mod_pos_pos_trivial)

lemma rng_next_eq_spec: "rng_next s = mulberry32_spec s"
proof -
  define t0 where "t0 = (s + 0x6D2B79F5) mod (2::int) ^ 32"
  define t1 where "t1 = ((t0 XOR (drop_bit 15 t0)) * (t0 OR 1)) mod (2::int) ^ 32"
  define X where "X = (t1 XOR (drop_bit 7 t1)) * (t1 OR 61)"
  define t2 where "t2 = (t1 XOR ((t1 + X) mod 2 ^ 32)) mod 2 ^ 32"
  have "(t1 XOR (t1 + X mod 2 ^ 32)) mod 2 ^ 32 = t2"
  proof -
    have "(t1 + X mod 2 ^ 32) mod 2 ^ 32 = (t1 + X) mod 2 ^ 32" by (rule mod_add_right_eq)
    then have "(t1 XOR (t1 + X mod 2 ^ 32)) mod 2 ^ 32
        = (t1 mod 2 ^ 32) XOR ((t1 + X) mod 2 ^ 32)"
      by (simp only: xor_mod32)
    also have "\<dots> = (t1 mod 2 ^ 32) XOR (((t1 + X) mod 2 ^ 32) mod 2 ^ 32)"
      by (simp only: mod_mod_trivial)
    also have "\<dots> = t2" by (simp only: xor_mod32 t2_def)
    finally show ?thesis .
  qed
  note t2' = this
  have t2: "0 \<le> t2" "t2 < 2 ^ 32" by (simp_all add: t2_def)
  have out: "(t2 XOR drop_bit 14 t2) mod 2 ^ 32 = t2 XOR drop_bit 14 t2"
    using t2 by (rule xor_shift_small)
  show ?thesis
    unfolding rng_next_def mulberry32_spec_def Let_def and_mask32
    unfolding t0_def [symmetric] t1_def [symmetric] X_def [symmetric] t2'
    unfolding t2_def [symmetric]
    using out by simp
qed

lemma rng_next_state: "snd (rng_next s) = (s + 0x6D2B79F5) mod 2 ^ 32"
  by (simp add: rng_next_def Let_def and_mask32)

lemma rng_next_range: "0 \<le> fst (rng_next s)" "fst (rng_next s) < 1"
proof -
  define t0 where "t0 = (s + 0x6D2B79F5) mod (2::int) ^ 32"
  define t1 where "t1 = ((t0 XOR (drop_bit 15 t0)) * (t0 OR 1)) mod (2::int) ^ 32"
  define t2 where
    "t2 = (t1 XOR ((t1 + ((t1 XOR (drop_bit 7 t1)) * (t1 OR 61))) mod 2 ^ 32)) mod (2::int) ^ 32"
  have t2: "0 \<le> t2" "t2 < 2 ^ 32" by (simp_all add: t2_def)
  have eq: "fst (rng_next s) = real_of_int (t2 XOR drop_bit 14 t2) / 4294967296"
    unfolding rng_next_def Let_def and_mask32 t0_def [symmetric] t1_def [symmetric]
      t2_def [symmetric] by simp
  have r: "0 \<le> t2 XOR drop_bit 14 t2" "t2 XOR drop_bit 14 t2 < 2 ^ 32"
    using xor_shift_range [OF t2] by auto
  show "0 \<le> fst (rng_next s)" using r(1) by (simp add: eq)
  have "real_of_int (t2 XOR drop_bit 14 t2) < real_of_int (2 ^ 32)"
    using r(2) by (simp only: of_int_less_iff)
  then show "fst (rng_next s) < 1" by (simp add: eq)
qed

text \<open>
  Claim C1. For every state \<open>s\<close>, and so on every call, \<open>next\<close> computes the
  Mulberry32 step as the specification words it: the new state is
  \<open>(s + 0x6D2B79F5) mod 2 ^ 32\<close>, the two mixing steps are taken modulo \<open>2 ^ 32\<close>, and
  the value returned is \<open>((t xor (t >> 14)) mod 2 ^ 32) / 2 ^ 32\<close>, which lies in
  \<open>[0, 1)\<close>.
\<close>

theorem rng_next_is_mulberry32:
  "rng_next s = mulberry32_spec s \<and>
   snd (rng_next s) = (s + 0x6D2B79F5) mod 2 ^ 32 \<and>
   0 \<le> fst (rng_next s) \<and> fst (rng_next s) < 1"
  using rng_next_eq_spec rng_next_state rng_next_range by blast

lemma SeededRandom_mod: "SeededRandom s = s mod 2 ^ 32"
  by (simp only: SeededRandom_def and_mask32)

text \<open>
  Claim C10. The constructor reduces the seed modulo \<open>2 ^ 32\<close>: a generator built from
  \<open>s\<close> and one built from \<open>s mod 2 ^ 32\<close>, or from any seed congruent to \<open>s\<close> modulo
  \<open>2 ^ 32\<close>, return the same values from \<open>next\<close>, call after call.
\<close>

theorem seeds_congruent_same_sequence:
  assumes "s mod 2 ^ 32 = s' mod 2 ^ 32"
  shows "SeededRandom s = s mod 2 ^ 32 \<and>
         SeededRandom s = SeededRandom (s mod 2 ^ 32) \<and>
         rng_draws n (SeededRandom s) = rng_draws n (SeededRandom (s mod 2 ^ 32)) \<and>
         rng_draws n (SeededRandom s) = rng_draws n (SeededRandom s')"
  using assms by (simp only: SeededRandom_mod mod_mod_trivial)

theorem seeds_congruent_same_sequence_witness:
  "(4294979641::int) mod 2 ^ 32 = 12345 mod 2 ^ 32 \<and>
   SeededRandom 4294979641 = 4294979641 mod 2 ^ 32 \<and>
   rng_draws 5 (SeededRandom 4294979641) = rng_draws 5 (SeededRandom 12345)"
proof -
  have h: "(4294979641::int) mod 2 ^ 32 = 12345 mod 2 ^ 32" by simp
  show ?thesis using h seeds_congruent_same_sequence [OF h, of 5] by blast
qed

section \<open>Square roots and the grid index\<close>

lemma sqrt2_bounds: "7 / 5 < sqrt 2" "sqrt 2 < 29 / 20"
proof -
  have "(7 / 5 :: real) = sqrt ((7 / 5) ^ 2)" by simp
  also have "\<dots> < sqrt 2" by (rule real_sqrt_less_mono) (simp add: power2_eq_square)
  finally show "7 / 5 < sqrt 2" .
  have "sqrt 2 < sqrt ((29 / 20) ^ 2)" by (rule real_sqrt_less_mono) (simp add: power2_eq_square)
  also have "\<dots> = 29 / 20" by simp
  finally show "sqrt 2 < 29 / 20" .
qed

lemma distance_lt_iff [code]:
  "distance_lt x1 y1 x2 y2 r \<longleftrightarrow> 0 < r \<and> (x1 - x2) ^ 2 + (y1 - y2) ^ 2 < r ^ 2"
proof -
  define n where "n = (x1 - x2) ^ 2 + (y1 - y2) ^ 2"
  have n0: "0 \<le> n" by (simp add: n_def)
  show ?thesis
  proof (cases "0 < r")
    case True
    have "sqrt ((real_of_int r) ^ 2) = real_of_int r" using True by simp
    moreover have "sqrt (real_of_int n) < sqrt ((real_of_int r) ^ 2)
        \<longleftrightarrow> real_of_int n < (real_of_int r) ^ 2"
      by (rule real_sqrt_less_iff)
    ultimately have "sqrt (real_of_int n) < real_of_int r
        \<longleftrightarrow> real_of_int n < (real_of_int r) ^ 2"
      by simp
    also have "\<dots> \<longleftrightarrow> n < r ^ 2"
      by (metis of_int_less_iff of_int_power)
    finally show ?thesis using True by (simp add: distance_lt_def distance_def n_def)
  next
    case False
    then have "real_of_int r \<le> 0" by simp
    also have "0 \<le> sqrt (real_of_int n)" using n0 by simp
    finally show ?thesis using False by (simp add: distance_lt_def distance_def n_def)
  qed
qed

lemma cellSize_pos: "0 < cellSize"
  by (simp add: cellSize_def minDistance_def)

lemma cellIndex_scaled: "real_of_int v / cellSize = real_of_int v * sqrt 2 / 5"
  by (simp add: cellSize_def minDistance_def)

lemma scaled_le_iff:
  assumes "0 \<le> k" "0 \<le> v"
  shows "real_of_int k \<le> real_of_int v * sqrt 2 / 5 \<longleftrightarrow> 25 * k ^ 2 \<le> 2 * v ^ 2"
proof -
  have "real_of_int k \<le> real_of_int v * sqrt 2 / 5 \<longleftrightarrow> 5 * real_of_int k \<le> real_of_int v * sqrt 2"
    by auto
  also have "\<dots> \<longleftrightarrow> (5 * real_of_int k) ^ 2 \<le> (real_of_int v * sqrt 2) ^ 2"
  proof -
    have "0 \<le> 5 * real_of_int k" "0 \<le> real_of_int v * sqrt 2" using assms by simp_all
    then show ?thesis by (metis abs_le_square_iff abs_of_nonneg)
  qed
  also have "\<dots> \<longleftrightarrow> real_of_int (25 * k ^ 2) \<le> real_of_int (2 * v ^ 2)"
    by (simp add: power_mult_distrib mult.commute)
  also have "\<dots> \<longleftrightarrow> 25 * k ^ 2 \<le> 2 * v ^ 2" by (rule of_int_le_iff)
  finally show ?thesis .
qed

lemma cell_search_props:
  "0 \<le> cell_search n v \<and> cell_search n v \<le> int n \<and>
   25 * (cell_search n v) ^ 2 \<le> 2 * v ^ 2 \<and>
   (\<forall>j. cell_search n v < j \<and> j \<le> int n \<longrightarrow> 2 * v ^ 2 < 25 * j ^ 2)"
proof (induction n)
  case 0
  show ?case by simp
next
  case (Suc n)
  show ?case
  proof (cases "25 * (int (Suc n)) ^ 2 \<le> 2 * v ^ 2")
    case True
    then show ?thesis by simp
  next
    case False
    have "\<And>j. cell_search n v < j \<Longrightarrow> j \<le> int (Suc n) \<Longrightarrow> 2 * v ^ 2 < 25 * j ^ 2"
    proof -
      fix j assume j: "cell_search n v < j" "j \<le> int (Suc n)"
      show "2 * v ^ 2 < 25 * j ^ 2"
      proof (cases "j = int (Suc n)")
        case True
        then show ?thesis using False by simp
      next
        case False
        then have "j \<le> int n" using j(2) by simp
        then show ?thesis using Suc j(1) by blast
      qed
    qed
    then show ?thesis using False Suc by auto
  qed
qed

lemma cellIndex_nonneg_eq:
  assumes "0 \<le> v"
  shows "cellIndex v = cell_search (nat v) v"
proof -
  define k where "k = cell_search (nat v) v"
  define r where "r = real_of_int v * sqrt 2 / 5"
  have P: "0 \<le> k" "k \<le> v" "25 * k ^ 2 \<le> 2 * v ^ 2"
    "\<And>j. k < j \<Longrightarrow> j \<le> v \<Longrightarrow> 2 * v ^ 2 < 25 * j ^ 2"
    using cell_search_props [of "nat v" v] assms by (auto simp: k_def)
  have r0: "0 \<le> r" using assms by (simp add: r_def)
  have lo: "real_of_int k \<le> r"
    unfolding r_def using P(1,3) assms by (simp only: scaled_le_iff)
  have hi: "r < real_of_int k + 1"
  proof (cases "k + 1 \<le> v")
    case True
    then have "2 * v ^ 2 < 25 * (k + 1) ^ 2" using P(4) [of "k + 1"] by simp
    then have "\<not> real_of_int (k + 1) \<le> r"
      unfolding r_def using P(1) assms scaled_le_iff [of "k + 1" v] by simp
    then show ?thesis by simp
  next
    case False
    then have kv: "k = v" using P(2) by simp
    have "real_of_int v * sqrt 2 \<le> real_of_int v * (29 / 20)"
      using assms sqrt2_bounds(2) by (intro mult_left_mono) auto
    then have "r \<le> real_of_int v * (29 / 20) / 5" by (simp add: r_def)
    also have "\<dots> \<le> real_of_int v" using assms by simp
    finally show ?thesis using kv by simp
  qed
  have "\<lfloor>r\<rfloor> = k" using lo hi by (intro floor_unique) auto
  then show ?thesis
    using r0 by (simp add: cellIndex_def py_int_def cellIndex_scaled r_def k_def)
qed

lemma cellIndex_neg_eq:
  assumes "v < 0"
  shows "cellIndex v = - cellIndex (- v)"
proof -
  have neg: "real_of_int v / cellSize < 0"
    by (rule divide_neg_pos) (use assms cellSize_pos in simp_all)
  have pos: "0 \<le> real_of_int (- v) / cellSize"
    by (rule divide_nonneg_pos) (use assms cellSize_pos in simp_all)
  have "cellIndex v = \<lceil>real_of_int v / cellSize\<rceil>" using neg by (simp add: cellIndex_def py_int_def)
  also have "\<dots> = - \<lfloor>- (real_of_int v / cellSize)\<rfloor>" by (simp add: ceiling_def)
  also have "- (real_of_int v / cellSize) = real_of_int (- v) / cellSize" by simp
  also have "- \<lfloor>real_of_int (- v) / cellSize\<rfloor> = - cellIndex (- v)"
    using pos by (simp add: cellIndex_def py_int_def)
  finally show ?thesis .
qed

lemma cellIndex_code [code]:
  "cellIndex v = (if 0 \<le> v then cell_search (nat v) v else - cell_search (nat (- v)) (- v))"
proof (cases "0 \<le> v")
  case True
  then show ?thesis by (simp add: cellIndex_nonneg_eq)
next
  case False
  then have "cellIndex v = - cellIndex (- v)" by (simp add: cellIndex_neg_eq)
  also have "cellIndex (- v) = cell_search (nat (- v)) (- v)"
    using False by (intro cellIndex_nonneg_eq) simp
  finally show ?thesis using False by simp
qed

lemma gridCols_eq [code]: "gridCols = 21"
proof -
  have "\<lceil>72 * sqrt 2 / 5 :: real\<rceil> = 21"
    using sqrt2_bounds by (intro ceiling_unique) auto
  then show ?thesis by (simp add: gridCols_def gridWidth_def cellSize_def minDistance_def)
qed

lemma gridRows_eq [code]: "gridRows = 14"
proof -
  have "\<lceil>48 * sqrt 2 / 5 :: real\<rceil> = 14"
    using sqrt2_bounds by (intro ceiling_unique) auto
  then show ?thesis by (simp add: gridRows_def gridHeight_def cellSize_def minDistance_def)
qed

declare main_loop.simps [code]

declare main_loop.simps [code]

section \<open>Geometry of the grid\<close>

lemma cellIndex_nonneg:
  assumes "0 \<le> v"
  shows "cellIndex v = \<lfloor>real_of_int v / cellSize\<rfloor>" "0 \<le> cellIndex v"
proof -
  have r: "0 \<le> real_of_int v / cellSize"
    by (rule divide_nonneg_pos) (use assms cellSize_pos in simp_all)
  show "cellIndex v = \<lfloor>real_of_int v / cellSize\<rfloor>" using r by (simp add: cellIndex_def py_int_def)
  then show "0 \<le> cellIndex v" using r by simp
qed

lemma cellIndex_less:
  assumes "0 \<le> v" "v < w"
  shows "cellIndex v < \<lceil>real_of_int w / cellSize\<rceil>"
proof -
  have "real_of_int v / cellSize < real_of_int w / cellSize"
    using assms cellSize_pos by (simp add: divide_strict_right_mono)
  then have "real_of_int \<lfloor>real_of_int v / cellSize\<rfloor> < real_of_int \<lceil>real_of_int w / cellSize\<rceil>"
    by linarith
  then show ?thesis using assms(1) by (simp add: cellIndex_nonneg(1))
qed

lemma inBounds_cell:
  assumes "isInBounds p"
  shows "0 \<le> cellIndex (px p)" "cellIndex (px p) < gridCols"
        "0 \<le> cellIndex (py p)" "cellIndex (py p) < gridRows"
  using assms cellIndex_nonneg(2) cellIndex_less
  by (auto simp: isInBounds_def gridCols_def gridRows_def)

lemma same_cell_close:
  assumes "0 \<le> a" "0 \<le> b" "cellIndex a = cellIndex b"
  shows "\<bar>a - b\<bar> \<le> 3"
proof -
  define ra where "ra = real_of_int a * sqrt 2 / 5"
  define rb where "rb = real_of_int b * sqrt 2 / 5"
  have "\<lfloor>ra\<rfloor> = \<lfloor>rb\<rfloor>"
    using assms by (simp add: cellIndex_nonneg(1) cellIndex_scaled ra_def rb_def)
  then have "\<bar>ra - rb\<bar> < 1" by linarith
  then have "\<bar>real_of_int (a - b) * sqrt 2 / 5\<bar> < 1"
    by (simp add: ra_def rb_def algebra_simps diff_divide_distrib)
  then have "\<bar>real_of_int (a - b)\<bar> * sqrt 2 < 5" by (simp add: abs_mult)
  moreover have "\<bar>real_of_int (a - b)\<bar> * (7 / 5) \<le> \<bar>real_of_int (a - b)\<bar> * sqrt 2"
    using sqrt2_bounds(1) by (intro mult_left_mono) auto
  ultimately have "\<bar>real_of_int (a - b)\<bar> * (7 / 5) < 5" by (rule le_less_trans [rotated])
  then have "\<bar>real_of_int (a - b)\<bar> < 4" by simp
  then have "\<bar>a - b\<bar> < 4" by linarith
  then show ?thesis by simp
qed

lemma too_close_iff:
  "too_close p q \<longleftrightarrow> (px p - px q) ^ 2 + (py p - py q) ^ 2 < 25"
  by (simp add: too_close_def distance_lt_iff minDistance_def)

lemma too_close_sym: "too_close p q \<longleftrightarrow> too_close q p"
  by (simp add: too_close_iff power2_commute)

lemma abs_le3_sq: "\<bar>d\<bar> \<le> 3 \<Longrightarrow> (d::int) ^ 2 \<le> 9"
proof -
  assume "\<bar>d\<bar> \<le> 3"
  then have "\<bar>d\<bar> ^ 2 \<le> 3 ^ 2" by (intro power_mono) auto
  then show ?thesis by simp
qed

lemma same_cell_too_close:
  assumes "isInBounds p" "isInBounds q"
    "cellIndex (px p) = cellIndex (px q)" "cellIndex (py p) = cellIndex (py q)"
  shows "too_close p q"
proof -
  have "\<bar>px p - px q\<bar> \<le> 3" "\<bar>py p - py q\<bar> \<le> 3"
    using assms by (auto simp: isInBounds_def intro: same_cell_close)
  then have "(px p - px q) ^ 2 \<le> 9" "(py p - py q) ^ 2 \<le> 9"
    by (auto intro: abs_le3_sq)
  then show ?thesis by (simp add: too_close_iff)
qed

section \<open>The grid\<close>

lemma grid_ok_empty: "grid_ok empty_grid"
  by (simp add: grid_ok_def empty_grid_def)

lemma grid_ok_insert:
  assumes "grid_ok g"
  shows "grid_ok (insertIntoGrid g p)"
proof -
  have "length ((g ! i)[j := v]) = nat gridCols" if "i < length g" for i j v
    using assms that by (simp add: grid_ok_def)
  then show ?thesis
    using assms by (auto simp: grid_ok_def insertIntoGrid_def Let_def dest!: set_update_subset_insert [THEN subsetD])
qed

lemma cell_at_insert_same:
  assumes "grid_ok g" "isInBounds p"
  shows "cell_at (insertIntoGrid g p) p = Some p"
proof -
  note c = inBounds_cell [OF assms(2)]
  have y: "nat (cellIndex (py p)) < length g" using assms(1) c by (simp add: grid_ok_def)
  then have "g ! nat (cellIndex (py p)) \<in> set g" by simp
  then have x: "nat (cellIndex (px p)) < length (g ! nat (cellIndex (py p)))"
    using assms(1) c by (simp add: grid_ok_def)
  show ?thesis using c x y by (simp add: cell_at_def insertIntoGrid_def Let_def)
qed

lemma cell_at_insert_other:
  assumes "isInBounds p" "isInBounds q"
    "cellIndex (px q) \<noteq> cellIndex (px p) \<or> cellIndex (py q) \<noteq> cellIndex (py p)"
  shows "cell_at (insertIntoGrid g p) q = cell_at g q"
proof -
  note c = inBounds_cell [OF assms(1)] and d = inBounds_cell [OF assms(2)]
  show ?thesis
  proof (cases "cellIndex (py q) = cellIndex (py p)")
    case True
    then have "nat (cellIndex (px q)) \<noteq> nat (cellIndex (px p))" using assms(3) c d by simp
    then show ?thesis
      using True by (cases "nat (cellIndex (py p)) < length g")
        (simp_all add: cell_at_def insertIntoGrid_def Let_def list_update_beyond)
  next
    case False
    then have "nat (cellIndex (py q)) \<noteq> nat (cellIndex (py p))" using c d by simp
    then show ?thesis by (simp add: cell_at_def insertIntoGrid_def Let_def)
  qed
qed

lemma upto_m2_2: "set [-2..2] = {d::int. - 2 \<le> d \<and> d \<le> 2}"
  by auto

lemma hasNearbyPoints_window:
  assumes "\<not> hasNearbyPoints g c" "isInBounds p" "in_window p c" "cell_at g p = Some p"
  shows "\<not> too_close c p"
proof
  assume tc: "too_close c p"
  note d = inBounds_cell [OF assms(2)]
  define dx where "dx = cellIndex (px p) - cellIndex (px c)"
  define dy where "dy = cellIndex (py p) - cellIndex (py c)"
  have w: "dx \<in> set [-2..2]" "dy \<in> set [-2..2]"
    using assms(3) unfolding upto_m2_2 by (auto simp: in_window_def dx_def dy_def)
  have e: "cellIndex (px c) + dx = cellIndex (px p)" "cellIndex (py c) + dy = cellIndex (py p)"
    by (simp_all add: dx_def dy_def)
  have "hasNearbyPoints g c"
    unfolding hasNearbyPoints_def Let_def list_ex_iff
    apply (rule bexI [OF _ w(2)])
    apply (rule bexI [OF _ w(1)])
    using d tc assms(4) by (simp add: e cell_at_def too_close_def)
  then show False using assms(1) by simp
qed

section \<open>Drawing the initial point and a candidate\<close>

lemma py_int_scaled:
  assumes "0 \<le> u" "u < 1" "0 < n"
  shows "0 \<le> py_int (u * real_of_int n)" "py_int (u * real_of_int n) < n"
proof -
  have a: "0 \<le> u * real_of_int n" using assms by simp
  have b: "u * real_of_int n < real_of_int n" using assms by simp
  show "0 \<le> py_int (u * real_of_int n)" using a by (simp add: py_int_def)
  have "\<lfloor>u * real_of_int n\<rfloor> < n" using b by (simp add: floor_less_iff)
  then show "py_int (u * real_of_int n) < n" using a by (simp add: py_int_def)
qed

lemma draw_range:
  assumes "rng_next s = (u, s')"
  shows "0 \<le> u" "u < 1"
  using rng_next_range [of s] assms by simp_all

lemma find_initial_Some:
  "find_initial zones n seed = (Some c, seed') \<Longrightarrow> isInBounds c \<and> \<not> isInExcludedZone zones c"
proof (induction n arbitrary: seed)
  case 0
  then show ?case by simp
next
  case (Suc n)
  obtain u1 s1 where d1: "rng_next seed = (u1, s1)" by (cases "rng_next seed")
  obtain u2 s2 where d2: "rng_next s1 = (u2, s2)" by (cases "rng_next s1")
  define cand where
    "cand = \<lparr>px = py_int (u1 * real_of_int gridWidth), py = py_int (u2 * real_of_int gridHeight)\<rparr>"
  have inb: "isInBounds cand"
    using py_int_scaled [OF draw_range [OF d1], of gridWidth]
      py_int_scaled [OF draw_range [OF d2], of gridHeight]
    by (simp add: isInBounds_def cand_def gridWidth_def gridHeight_def)
  show ?case
  proof (cases "isInExcludedZone zones cand")
    case True
    then have "find_initial zones n s2 = (Some c, seed')"
      using Suc.prems d1 d2 by (simp add: cand_def Let_def)
    then show ?thesis by (rule Suc.IH)
  next
    case False
    then have "c = cand" using Suc.prems d1 d2 by (simp add: cand_def Let_def)
    then show ?thesis using inb False by simp
  qed
qed

lemma try_place_Some:
  "try_place g zones gr point n i seed rr = (Some (c, k), rr', seed') \<Longrightarrow>
     isInBounds c \<and> \<not> isInExcludedZone zones c \<and> \<not> hasNearbyPoints gr c"
proof (induction n arbitrary: i seed rr)
  case 0
  then show ?case by simp
next
  case (Suc n)
  obtain u1 s1 where d1: "rng_next seed = (u1, s1)" by (cases "rng_next seed")
  obtain u2 s2 where d2: "rng_next s1 = (u2, s2)" by (cases "rng_next s1")
  show ?case
    using Suc.prems Suc.IH d1 d2
    by (auto simp: Let_def split: if_splits)
qed

lemma try_place_None:
  "try_place g zones gr point n i seed rr = (None, rr', seed') \<Longrightarrow>
     bounds rr' + excluded rr' + nearby rr' = bounds rr + excluded rr + nearby rr + n"
proof (induction n arbitrary: i seed rr)
  case 0
  then show ?case by simp
next
  case (Suc n)
  obtain u1 s1 where d1: "rng_next seed = (u1, s1)" by (cases "rng_next seed")
  obtain u2 s2 where d2: "rng_next s1 = (u2, s2)" by (cases "rng_next s1")
  show ?case
    using Suc.prems d1 d2
    by (auto simp: Let_def split: if_splits dest!: Suc.IH)
qed

section \<open>One iteration of the main loop\<close>

lemma end_of_iteration_eq:
  "end_of_iteration m =
     (m\<lparr>trace := trace m @ BlankLine # (if 20 < iteration m then [StoppingLine] else [])\<rparr>,
      20 < iteration m)"
  by (simp add: end_of_iteration_def Let_def)

lemma py_getitem_nat:
  assumes "0 \<le> i" "i < int (length xs)"
  shows "py_getitem xs i = Some (xs ! nat i)"
  using assms by (simp add: py_getitem_def Let_def)

lemma py_pop_nat:
  assumes "0 \<le> i" "i < int (length xs)"
  shows "py_pop xs i = Some (take (nat i) xs @ drop (Suc (nat i)) xs)"
  using assms by (simp add: py_pop_def Let_def)

lemma randomIndex_range:
  assumes "rng_next s = (u, s')" "xs \<noteq> []"
  shows "0 \<le> py_int (u * real (length xs))" "py_int (u * real (length xs)) < int (length xs)"
proof -
  have n: "0 < int (length xs)" using assms(2) by simp
  have r: "real (length xs) = real_of_int (int (length xs))" by simp
  show "0 \<le> py_int (u * real (length xs))"
    unfolding r using draw_range [OF assms(1)] n by (rule py_int_scaled(1))
  show "py_int (u * real (length xs)) < int (length xs)"
    unfolding r using draw_range [OF assms(1)] n by (rule py_int_scaled(2))
qed

lemma loop_body_cases:
  assumes "activeList st \<noteq> []" "loop_body g zones st = r"
  obtains
    (found) point c k seed2 where
      "point \<in> set (activeList st)"
      "isInBounds c" "\<not> isInExcludedZone zones c" "\<not> hasNearbyPoints (grid st) c"
      "r = Inr (end_of_iteration
         (st\<lparr>points := points st @ [c], activeList := activeList st @ [c],
             grid := insertIntoGrid (grid st) c, rng := seed2,
             iteration := iteration st + 1,
             trace := trace st @ [IterationLine (iteration st + 1),
               SizesLine (length (activeList st)) (length (points st)),
               SelectedLine point, FoundLine c (k + 1)]\<rparr>))"
  | (failed) point i and rr :: rejections and seed2 where
      "i < length (activeList st)" "point = activeList st ! i"
      "bounds rr + excluded rr + nearby rr = maxAttempts"
      "r = Inr (end_of_iteration
         (st\<lparr>activeList := take i (activeList st) @ drop (Suc i) (activeList st),
             rng := seed2, iteration := iteration st + 1,
             trace := trace st @ [IterationLine (iteration st + 1),
               SizesLine (length (activeList st)) (length (points st)),
               SelectedLine point, FailedLine maxAttempts,
               RejectionsLine (bounds rr) (excluded rr) (nearby rr)]\<rparr>))"
proof -
  obtain u seed1 where d: "rng_next (rng st) = (u, seed1)" by (cases "rng_next (rng st)")
  define idx where "idx = py_int (u * real (length (activeList st)))"
  note ir = randomIndex_range [OF d assms(1), folded idx_def]
  define point where "point = activeList st ! nat idx"
  have gi: "py_getitem (activeList st) idx = Some point"
    using ir by (simp add: py_getitem_nat point_def)
  have pp: "py_pop (activeList st) idx
      = Some (take (nat idx) (activeList st) @ drop (Suc (nat idx)) (activeList st))"
    using ir by (simp add: py_pop_nat)
  have pin: "point \<in> set (activeList st)" using ir by (simp add: point_def)
  have nidx: "nat idx < length (activeList st)" using ir by simp
  obtain res rr seed2 where
    tp: "try_place g zones (grid st) point maxAttempts 0 seed1
           \<lparr>bounds = 0, excluded = 0, nearby = 0\<rparr> = (res, rr, seed2)"
    by (metis prod_cases3)
  show thesis
  proof (cases res)
    case None
    have sum: "bounds rr + excluded rr + nearby rr = maxAttempts"
      using try_place_None [OF tp [unfolded None]] by simp
    have "r = Inr (end_of_iteration
         (st\<lparr>activeList := take (nat idx) (activeList st) @ drop (Suc (nat idx)) (activeList st),
             rng := seed2, iteration := iteration st + 1,
             trace := trace st @ [IterationLine (iteration st + 1),
               SizesLine (length (activeList st)) (length (points st)),
               SelectedLine point, FailedLine maxAttempts,
               RejectionsLine (bounds rr) (excluded rr) (nearby rr)]\<rparr>))"
      using assms(2) d gi pp tp None
      by (simp add: loop_body_def Let_def idx_def [symmetric])
    then show thesis by (rule failed [OF nidx point_def sum])
  next
    case (Some ck)
    obtain c k where ck: "ck = (c, k)" by (cases ck)
    note ok = try_place_Some [OF tp [unfolded Some ck]]
    have "r = Inr (end_of_iteration
         (st\<lparr>points := points st @ [c], activeList := activeList st @ [c],
             grid := insertIntoGrid (grid st) c, rng := seed2,
             iteration := iteration st + 1,
             trace := trace st @ [IterationLine (iteration st + 1),
               SizesLine (length (activeList st)) (length (points st)),
               SelectedLine point, FoundLine c (k + 1)]\<rparr>))"
      using assms(2) d gi tp Some ck
      by (simp add: loop_body_def Let_def idx_def [symmetric])
    then show thesis using pin ok by (intro found) auto
  qed
qed

lemma accepted_not_close:
  assumes "\<not> hasNearbyPoints g c" "isInBounds p" "cell_at g p = Some p" "in_window p c"
  shows "\<not> too_close p c"
  using hasNearbyPoints_window [OF assms(1,2,4,3)] too_close_sym by blast

lemma accepted_other_cell:
  assumes "\<not> hasNearbyPoints g c" "isInBounds c" "isInBounds p" "cell_at g p = Some p"
  shows "cellIndex (px p) \<noteq> cellIndex (px c) \<or> cellIndex (py p) \<noteq> cellIndex (py c)"
proof (rule ccontr)
  assume "\<not> ?thesis"
  then have e: "cellIndex (px p) = cellIndex (px c)" "cellIndex (py p) = cellIndex (py c)"
    by simp_all
  then have "in_window p c" by (simp add: in_window_def)
  then have "\<not> too_close p c" using assms by (intro accepted_not_close)
  moreover have "too_close p c" using assms(2,3) e by (intro same_cell_too_close)
  ultimately show False by simp
qed

lemma accepted_cells:
  assumes "grid_ok g" "\<not> hasNearbyPoints g c" "isInBounds c"
    "\<forall>p \<in> set ps. isInBounds p \<and> cell_at g p = Some p"
    "q \<in> set (ps @ [c])"
  shows "cell_at (insertIntoGrid g c) q = Some q"
proof (cases "q = c")
  case True
  then show ?thesis using assms(1,3) by (simp add: cell_at_insert_same)
next
  case False
  then have q: "isInBounds q" "cell_at g q = Some q" using assms(4,5) by auto
  have "cell_at (insertIntoGrid g c) q = cell_at g q"
    using assms(3) q(1) accepted_other_cell [OF assms(2,3) q] by (rule cell_at_insert_other)
  then show ?thesis using q(2) by simp
qed

lemma accepted_pairwise:
  assumes "\<not> hasNearbyPoints g c"
    "\<forall>p \<in> set ps. isInBounds p \<and> cell_at g p = Some p"
    "\<forall>i j. i < j \<and> j < length ps \<and> in_window (ps ! i) (ps ! j) \<longrightarrow> \<not> too_close (ps ! i) (ps ! j)"
    "i < j" "j < length (ps @ [c])" "in_window ((ps @ [c]) ! i) ((ps @ [c]) ! j)"
  shows "\<not> too_close ((ps @ [c]) ! i) ((ps @ [c]) ! j)"
proof (cases "j < length ps")
  case True
  then show ?thesis using assms(3,4,6) by (simp add: nth_append)
next
  case False
  then have j: "j = length ps" using assms(5) by simp
  then have i: "i < length ps" using assms(4) by simp
  then have m: "ps ! i \<in> set ps" by simp
  have e: "(ps @ [c]) ! i = ps ! i" "(ps @ [c]) ! j = c" using i j by (simp_all add: nth_append)
  have "\<not> too_close (ps ! i) c"
    using assms(1,2,6) m unfolding e by (intro accepted_not_close) auto
  then show ?thesis by (simp add: e)
qed

lemma sim_inv_step:
  assumes inv: "sim_inv zones st" and g: "loop_guard st"
    and lb: "loop_body g zones st = Inr (st', brk)"
  shows "sim_inv zones st'"
proof -
  have ne: "activeList st \<noteq> []" and lt: "length (points st) < 15"
    using g by (simp_all add: loop_guard_def)
  from ne lb show ?thesis
  proof (cases rule: loop_body_cases)
    case (found point c k seed2)
    have st': "points st' = points st @ [c]" "activeList st' = activeList st @ [c]"
      "grid st' = insertIntoGrid (grid st) c"
      "set (trace st') \<subseteq> set (trace st) \<union> {IterationLine (iteration st + 1),
         SizesLine (length (activeList st)) (length (points st)), SelectedLine point,
         FoundLine c (k + 1), BlankLine, StoppingLine}"
      using found(5) by (auto simp: end_of_iteration_eq)
    have old: "\<forall>p \<in> set (points st). isInBounds p \<and> cell_at (grid st) p = Some p"
      using inv by (simp add: sim_inv_def)
    have pw: "\<forall>i j. i < j \<and> j < length (points st) \<and> in_window (points st ! i) (points st ! j)
        \<longrightarrow> \<not> too_close (points st ! i) (points st ! j)"
      using inv by (simp add: sim_inv_def)
    have okg: "grid_ok (grid st)" using inv by (simp add: sim_inv_def)
    have 1: "grid_ok (grid st')" using okg by (simp add: st' grid_ok_insert)
    have 2: "\<forall>p \<in> set (points st').
        isInBounds p \<and> \<not> isInExcludedZone zones p \<and> cell_at (grid st') p = Some p"
    proof
      fix p assume p: "p \<in> set (points st')"
      then have "cell_at (grid st') p = Some p"
        unfolding st' using okg found(4,2) old by (intro accepted_cells)
      moreover have "isInBounds p \<and> \<not> isInExcludedZone zones p"
        using p inv found(2,3) by (auto simp: st' sim_inv_def)
      ultimately show "isInBounds p \<and> \<not> isInExcludedZone zones p \<and> cell_at (grid st') p = Some p"
        by simp
    qed
    have 3: "\<forall>i j. i < j \<and> j < length (points st') \<and> in_window (points st' ! i) (points st' ! j)
        \<longrightarrow> \<not> too_close (points st' ! i) (points st' ! j)"
      unfolding st' using accepted_pairwise [OF found(4) old pw] by blast
    have 4: "1 \<le> length (points st')" "length (points st') \<le> 15"
      "set (activeList st') \<subseteq> set (points st')"
      using inv lt by (auto simp: st' sim_inv_def)
    have 5: "\<forall>b e n. RejectionsLine b e n \<in> set (trace st') \<longrightarrow> b + e + n = maxAttempts"
      using inv st'(4) by (auto simp: sim_inv_def)
    show ?thesis unfolding sim_inv_def using 1 2 3 4 5 by blast
  next
    case (failed point i rr seed2)
    have st': "points st' = points st"
      "activeList st' = take i (activeList st) @ drop (Suc i) (activeList st)"
      "grid st' = grid st"
      "set (trace st') \<subseteq> set (trace st) \<union> {IterationLine (iteration st + 1),
         SizesLine (length (activeList st)) (length (points st)), SelectedLine point,
         FailedLine maxAttempts, RejectionsLine (bounds rr) (excluded rr) (nearby rr),
         BlankLine, StoppingLine}"
      using failed(4) by (auto simp: end_of_iteration_eq)
    have a: "set (activeList st') \<subseteq> set (points st')"
      using inv set_take_subset [of i "activeList st"] set_drop_subset [of "Suc i" "activeList st"]
      by (auto simp: st' sim_inv_def)
    have 5: "\<forall>b e n. RejectionsLine b e n \<in> set (trace st') \<longrightarrow> b + e + n = maxAttempts"
      using inv st'(4) failed(3) by (auto simp: sim_inv_def)
    show ?thesis unfolding sim_inv_def using inv a 5 by (simp add: st'(1,3) sim_inv_def)
  qed
qed

lemma loop_body_iteration:
  assumes "activeList st \<noteq> []" "loop_body g zones st = Inr (st', brk)"
  shows "iteration st' = iteration st + 1 \<and> (brk \<longleftrightarrow> 20 < iteration st') \<and>
    (StoppingLine \<in> set (trace st') \<longleftrightarrow> StoppingLine \<in> set (trace st) \<or> brk) \<and>
    (length (points st') = length (points st) + 1 \<or>
     length (activeList st') + 1 = length (activeList st))"
  using assms
proof (cases rule: loop_body_cases)
  case (found point c k seed2)
  have "iteration st' = iteration st + 1" "brk \<longleftrightarrow> 20 < iteration st + 1"
    "length (points st') = length (points st) + 1"
    "set (trace st') = set (trace st) \<union> {IterationLine (iteration st + 1),
         SizesLine (length (activeList st)) (length (points st)), SelectedLine point,
         FoundLine c (k + 1), BlankLine} \<union> (if brk then {StoppingLine} else {})"
    using found(5) by (auto simp: end_of_iteration_eq)
  then show ?thesis by auto
next
  case (failed point i rr seed2)
  have "iteration st' = iteration st + 1" "brk \<longleftrightarrow> 20 < iteration st + 1"
    "activeList st' = take i (activeList st) @ drop (Suc i) (activeList st)"
    "set (trace st') = set (trace st) \<union> {IterationLine (iteration st + 1),
         SizesLine (length (activeList st)) (length (points st)), SelectedLine point,
         FailedLine maxAttempts, RejectionsLine (bounds rr) (excluded rr) (nearby rr),
         BlankLine} \<union> (if brk then {StoppingLine} else {})"
    using failed(4) by (auto simp: end_of_iteration_eq)
  then show ?thesis using failed(1) by auto
qed

lemma loop_body_no_error:
  assumes "activeList st \<noteq> []"
  shows "\<exists>st' brk. loop_body g zones st = Inr (st', brk)"
proof -
  obtain r where r: "loop_body g zones st = r" by simp
  from assms r show ?thesis
  proof (cases rule: loop_body_cases)
    case (found point c k seed2)
    then show ?thesis using r by (simp add: end_of_iteration_eq)
  next
    case (failed point i rr seed2)
    then show ?thesis using r by (simp add: end_of_iteration_eq)
  qed
qed

section \<open>The whole run\<close>

lemma main_loop_stop:
  assumes "\<not> loop_guard st"
  shows "main_loop g zones st = Some (Inr st)"
  using assms by (subst main_loop.simps) (auto simp: loop_guard_def)

lemma main_loop_terminates: "\<exists>r. main_loop g zones st = Some r"
proof (induction "21 - iteration st" arbitrary: st rule: less_induct)
  case less
  show ?case
  proof (cases "loop_guard st")
    case False
    then show ?thesis by (simp add: main_loop_stop)
  next
    case True
    then have ne: "activeList st \<noteq> []" by (auto simp: loop_guard_def)
    obtain st' brk where lb: "loop_body g zones st = Inr (st', brk)"
      using loop_body_no_error [OF ne] by blast
    note it = loop_body_iteration [OF ne lb]
    show ?thesis
    proof (cases brk)
      case True
      then show ?thesis using lb by (subst main_loop.simps) simp
    next
      case False
      then have "21 - iteration st' < 21 - iteration st" using it by auto
      then obtain r where "main_loop g zones st' = Some r" using less by blast
      then show ?thesis using lb False by (subst main_loop.simps) simp
    qed
  qed
qed

lemma main_loop_exit:
  assumes "main_loop g zones st = Some r" "sim_inv zones st" "head_inv st"
  shows "\<exists>st'. r = Inr st' \<and> sim_inv zones st' \<and> iteration st' \<le> 21 \<and>
    (StoppingLine \<in> set (trace st') \<longleftrightarrow> iteration st' = 21) \<and>
    (\<not> loop_guard st' \<or> iteration st' = 21)"
  using assms
proof (induction "21 - iteration st" arbitrary: st rule: less_induct)
  case less
  note hd = less.prems(3) [unfolded head_inv_def]
  show ?case
  proof (cases "loop_guard st")
    case False
    then have "r = Inr st"
      using less.prems(1) by (simp add: main_loop_stop)
    then show ?thesis using False less.prems(2) hd by auto
  next
    case True
    then have ne: "activeList st \<noteq> []" by (auto simp: loop_guard_def)
    obtain st' brk where lb: "loop_body g zones st = Inr (st', brk)"
      using loop_body_no_error [OF ne] by blast
    note it = loop_body_iteration [OF ne lb]
    have inv': "sim_inv zones st'" using less.prems(2) True lb by (rule sim_inv_step)
    have unf: "main_loop g zones st = (if brk then Some (Inr st') else main_loop g zones st')"
      using True lb by (subst main_loop.simps) (simp add: loop_guard_def)
    show ?thesis
    proof (cases brk)
      case True
      then have "r = Inr st'" using less.prems(1) unf by simp
      moreover have "iteration st' = 21" using it hd True by simp
      moreover have "StoppingLine \<in> set (trace st')" using it True by simp
      ultimately show ?thesis using inv' by simp
    next
      case False
      then have m: "main_loop g zones st' = Some r" using less.prems(1) unf by simp
      have hd': "head_inv st'" using it hd False by (simp add: head_inv_def)
      have "21 - iteration st' < 21 - iteration st" using it False by auto
      then show ?thesis using m inv' hd' by (rule less.hyps)
    qed
  qed
qed

lemma init_inv:
  assumes "find_initial zones n seed = (Some initial, seed')"
  shows "sim_inv zones
      \<lparr>points = [initial], activeList = [initial],
       grid = insertIntoGrid empty_grid initial,
       rng = seed', iteration = 0, trace = [InitialLine initial, BlankLine]\<rparr>"
    "head_inv
      \<lparr>points = [initial], activeList = [initial],
       grid = insertIntoGrid empty_grid initial,
       rng = seed', iteration = 0, trace = [InitialLine initial, BlankLine]\<rparr>"
proof -
  note ok = find_initial_Some [OF assms]
  have "cell_at (insertIntoGrid empty_grid initial) initial = Some initial"
    using grid_ok_empty ok by (simp add: cell_at_insert_same)
  then show "sim_inv zones
      \<lparr>points = [initial], activeList = [initial],
       grid = insertIntoGrid empty_grid initial,
       rng = seed', iteration = 0, trace = [InitialLine initial, BlankLine]\<rparr>"
    using ok grid_ok_insert [OF grid_ok_empty] by (simp add: sim_inv_def)
  show "head_inv
      \<lparr>points = [initial], activeList = [initial],
       grid = insertIntoGrid empty_grid initial,
       rng = seed', iteration = 0, trace = [InitialLine initial, BlankLine]\<rparr>"
    by (simp add: head_inv_def)
qed

lemma run_Inr:
  assumes "run g zones seed = Some (Inr fin)"
  obtains st where "sim_inv zones st" "iteration st \<le> 21"
    "StoppingLine \<in> set (trace st) \<longleftrightarrow> iteration st = 21"
    "\<not> loop_guard st \<or> iteration st = 21"
    "fin = st\<lparr>trace := trace st @ [FinalLine (length (points st)), PointsLine (points st)]\<rparr>"
proof -
  obtain init seed' where fi: "find_initial zones 1000 (SeededRandom seed) = (init, seed')"
    by (cases "find_initial zones 1000 (SeededRandom seed)")
  show thesis
  proof (cases init)
    case None
    then show thesis using assms fi by (simp add: run_def)
  next
    case (Some initial)
    define st0 where "st0 = \<lparr>points = [initial], activeList = [initial],
       grid = insertIntoGrid empty_grid initial,
       rng = seed', iteration = 0, trace = [InitialLine initial, BlankLine]\<rparr>"
    obtain r where m: "main_loop g zones st0 = Some r" using main_loop_terminates by blast
    have "sim_inv zones st0" "head_inv st0"
      using init_inv [OF fi [unfolded Some]] by (simp_all add: st0_def)
    with m obtain st where st: "r = Inr st" "sim_inv zones st" "iteration st \<le> 21"
      "StoppingLine \<in> set (trace st) \<longleftrightarrow> iteration st = 21"
      "\<not> loop_guard st \<or> iteration st = 21"
      using main_loop_exit by blast
    have "fin = st\<lparr>trace := trace st @ [FinalLine (length (points st)), PointsLine (points st)]\<rparr>"
      using assms fi Some m st(1) by (simp add: run_def st0_def [symmetric])
    then show thesis using st that by blast
  qed
qed

lemma run_returns: "\<exists>r. run g zones seed = Some r"
proof -
  obtain init seed' where fi: "find_initial zones 1000 (SeededRandom seed) = (init, seed')"
    by (cases "find_initial zones 1000 (SeededRandom seed)")
  show ?thesis
  proof (cases init)
    case None
    then show ?thesis using fi by (simp add: run_def)
  next
    case (Some initial)
    obtain r where "main_loop g zones \<lparr>points = [initial], activeList = [initial],
       grid = insertIntoGrid empty_grid initial,
       rng = seed', iteration = 0, trace = [InitialLine initial, BlankLine]\<rparr> = Some r"
      using main_loop_terminates by blast
    then show ?thesis using fi Some by (cases r) (simp_all add: run_def)
  qed
qed

lemma run_outcome:
  "run g zones seed = Some (Inl (TypeError, [])) \<or>
   (\<exists>fin. run g zones seed = Some (Inr fin) \<and> iteration fin \<le> 21)"
proof -
  obtain init seed' where fi: "find_initial zones 1000 (SeededRandom seed) = (init, seed')"
    by (cases "find_initial zones 1000 (SeededRandom seed)")
  show ?thesis
  proof (cases init)
    case None
    then show ?thesis using fi by (simp add: run_def)
  next
    case (Some initial)
    define st0 where "st0 = \<lparr>points = [initial], activeList = [initial],
       grid = insertIntoGrid empty_grid initial,
       rng = seed', iteration = 0, trace = [InitialLine initial, BlankLine]\<rparr>"
    obtain r where m: "main_loop g zones st0 = Some r" using main_loop_terminates by blast
    have "sim_inv zones st0" "head_inv st0"
      using init_inv [OF fi [unfolded Some]] by (simp_all add: st0_def)
    with m obtain st where st: "r = Inr st" "iteration st \<le> 21"
      using main_loop_exit by blast
    have "run g zones seed = Some (Inr (st\<lparr>trace := trace st @
        [FinalLine (length (points st)), PointsLine (points st)]\<rparr>))"
      using fi Some m st(1) by (simp add: run_def st0_def [symmetric])
    then show ?thesis using st(2) by simp
  qed
qed

text \<open>
  Claim C9. The whole run terminates for every seed, every exclusion-zone configuration
  and every candidate generator: it either stops with the \<open>TypeError\<close> of the missing
  initial point, before anything is printed, or leaves the main loop after at most 21
  iterations.
\<close>

theorem run_always_terminates:
  "run g zones seed = Some (Inl (TypeError, [])) \<or>
   (\<exists>fin. run g zones seed = Some (Inr fin) \<and> iteration fin \<le> 21)"
  by (rule run_outcome)

section \<open>Running the model\<close>

lemma main_loop_step:
  assumes "loop_guard st" "loop_body g zones st = Inr (st', False)"
  shows "main_loop g zones st = main_loop g zones st'"
  using assms by (subst main_loop.simps) (simp add: loop_guard_def)

lemma find_initial_first:
  assumes "rng_next seed = (u1, s1)" "rng_next s1 = (u2, s2)"
    "c = \<lparr>px = py_int (u1 * real_of_int gridWidth), py = py_int (u2 * real_of_int gridHeight)\<rparr>"
    "\<not> isInExcludedZone zones c"
  shows "find_initial zones (Suc n) seed = (Some c, s2)"
  using assms by (simp add: Let_def)

lemma try_place_first:
  assumes "rng_next seed = (u1, s1)" "rng_next s1 = (u2, s2)" "c = g p u1 u2"
    "isInBounds c" "\<not> isInExcludedZone zones c" "\<not> hasNearbyPoints gr c"
  shows "try_place g zones gr p (Suc n) i seed rr = (Some (c, i), rr, s2)"
  using assms by (simp add: Let_def)

lemma rng_skip_two: "rng_skip (2 * Suc n) seed = rng_skip (2 * n) (snd (rng_next (snd (rng_next seed))))"
  by simp

lemma try_place_all_out:
  assumes "\<And>u1 u2. g p u1 u2 = c" "\<not> isInBounds c"
  shows "try_place g zones gr p n i seed rr
    = (None, rr\<lparr>bounds := bounds rr + n\<rparr>, rng_skip (2 * n) seed)"
proof (induction n arbitrary: i seed rr)
  case 0
  show ?case by simp
next
  case (Suc n)
  obtain u1 s1 where d1: "rng_next seed = (u1, s1)" by (cases "rng_next seed")
  obtain u2 s2 where d2: "rng_next s1 = (u2, s2)" by (cases "rng_next s1")
  show ?case
    unfolding rng_skip_two using assms d1 d2 by (simp add: Let_def Suc)
qed

lemma try_place_all_near:
  assumes "\<And>u1 u2. g p u1 u2 = c" "isInBounds c" "\<not> isInExcludedZone zones c"
    "hasNearbyPoints gr c"
  shows "try_place g zones gr p n i seed rr
    = (None, rr\<lparr>nearby := nearby rr + n\<rparr>, rng_skip (2 * n) seed)"
proof (induction n arbitrary: i seed rr)
  case 0
  show ?case by simp
next
  case (Suc n)
  obtain u1 s1 where d1: "rng_next seed = (u1, s1)" by (cases "rng_next seed")
  obtain u2 s2 where d2: "rng_next s1 = (u2, s2)" by (cases "rng_next s1")
  show ?case
    unfolding rng_skip_two using assms d1 d2 by (simp add: Let_def Suc)
qed

lemma example_draws:
  "rng_next 12345 = (4207900869 / 4294967296, 1831578158)"
  "rng_next 1831578158 = (5146449 / 16777216, 3663143971)"
  "rng_next 3663143971 = (1039823225 / 2147483648, 1199742488)"
  "rng_next 1199742488 = (219562597 / 268435456, 3031308301)"
  "rng_next 3031308301 = (1093989093 / 2147483648, 567906818)"
  "rng_next 567906818 = (1492380277 / 4294967296, 2399472631)"
  "rng_next 872460203 = (1748992681 / 4294967296, 2704026016)"
  by code_simp+

lemma example_skips:
  "rng_skip 100 2399472631 = 872460203"
  "rng_skip 100 2704026016 = 1177013588"
  by code_simp+

lemma example_tests:
  "\<not> isInExcludedZone excludedZones \<lparr>px = 70, py = 14\<rparr>"
  "isInBounds \<lparr>px = 67, py = 6\<rparr>"
  "\<not> isInExcludedZone excludedZones \<lparr>px = 67, py = 6\<rparr>"
  "\<not> hasNearbyPoints (insertIntoGrid empty_grid \<lparr>px = 70, py = 14\<rparr>) \<lparr>px = 67, py = 6\<rparr>"
  "hasNearbyPoints (insertIntoGrid (insertIntoGrid empty_grid \<lparr>px = 70, py = 14\<rparr>)
      \<lparr>px = 67, py = 6\<rparr>) \<lparr>px = 67, py = 6\<rparr>"
  "\<not> isInBounds \<lparr>px = 64, py = - 2\<rparr>"
  by code_simp+

lemma example_initial:
  "find_initial excludedZones 1000 (SeededRandom 12345) = (Some \<lparr>px = 70, py = 14\<rparr>, 3663143971)"
proof -
  have s: "SeededRandom 12345 = 12345" by code_simp
  have n: "(1000::nat) = Suc 999" by simp
  have c: "\<lparr>px = 70, py = 14\<rparr> = \<lparr>px = py_int (4207900869 / 4294967296 * real_of_int gridWidth),
      py = py_int (5146449 / 16777216 * real_of_int gridHeight)\<rparr>"
    by (simp add: py_int_def gridWidth_def gridHeight_def)
  show ?thesis
    unfolding s n by (rule find_initial_first [OF example_draws(1,2) c example_tests(1)])
qed

lemma loop_body_found_eq:
  assumes "rng_next (rng st) = (u, s1)"
    "py_getitem (activeList st) (py_int (u * real (length (activeList st)))) = Some point"
    "try_place g zones (grid st) point maxAttempts 0 s1
       \<lparr>bounds = 0, excluded = 0, nearby = 0\<rparr> = (Some (c, k), rr, s2)"
  shows "loop_body g zones st = Inr (end_of_iteration
           (st\<lparr>points := points st @ [c], activeList := activeList st @ [c],
               grid := insertIntoGrid (grid st) c, rng := s2,
               iteration := iteration st + 1,
               trace := trace st @ [IterationLine (iteration st + 1),
                 SizesLine (length (activeList st)) (length (points st)),
                 SelectedLine point, FoundLine c (k + 1)]\<rparr>))"
  using assms by (simp add: loop_body_def Let_def)

lemma loop_body_failed_eq:
  assumes "rng_next (rng st) = (u, s1)"
    "py_getitem (activeList st) (py_int (u * real (length (activeList st)))) = Some point"
    "try_place g zones (grid st) point maxAttempts 0 s1
       \<lparr>bounds = 0, excluded = 0, nearby = 0\<rparr> = (None, rr, s2)"
    "py_pop (activeList st) (py_int (u * real (length (activeList st)))) = Some rest"
  shows "loop_body g zones st = Inr (end_of_iteration
           (st\<lparr>activeList := rest, rng := s2, iteration := iteration st + 1,
               trace := trace st @ [IterationLine (iteration st + 1),
                 SizesLine (length (activeList st)) (length (points st)),
                 SelectedLine point, FailedLine maxAttempts,
                 RejectionsLine (bounds rr) (excluded rr) (nearby rr)]\<rparr>))"
  using assms by (simp add: loop_body_def Let_def)

lemma example_run: "run fixed_gen excludedZones 12345 = Some (Inr example_final)"
proof -
  define p0 :: point where "p0 = \<lparr>px = 70, py = 14\<rparr>"
  define p1 :: point where "p1 = \<lparr>px = 67, py = 6\<rparr>"
  define g1 where "g1 = insertIntoGrid empty_grid p0"
  define g2 where "g2 = insertIntoGrid g1 p1"
  define t0 where "t0 = [InitialLine p0, BlankLine]"
  define t1 where "t1 = t0 @ [IterationLine 1, SizesLine 1 1, SelectedLine p0, FoundLine p1 1,
    BlankLine]"
  define t2 where "t2 = t1 @ [IterationLine 2, SizesLine 2 2, SelectedLine p0, FailedLine 50,
    RejectionsLine 0 0 50, BlankLine]"
  define t3 where "t3 = t2 @ [IterationLine 3, SizesLine 1 2, SelectedLine p1, FailedLine 50,
    RejectionsLine 50 0 0, BlankLine]"
  define st0 where "st0 = \<lparr>points = [p0], activeList = [p0], grid = g1, rng = 3663143971,
    iteration = 0, trace = t0\<rparr>"
  define st1 where "st1 = \<lparr>points = [p0, p1], activeList = [p0, p1], grid = g2,
    rng = 567906818, iteration = 1, trace = t1\<rparr>"
  define st2 where "st2 = \<lparr>points = [p0, p1], activeList = [p1], grid = g2,
    rng = 872460203, iteration = 2, trace = t2\<rparr>"
  define st3 where "st3 = \<lparr>points = [p0, p1], activeList = [], grid = g2,
    rng = 1177013588, iteration = 3, trace = t3\<rparr>"
  have gen: "fixed_gen p0 u1 u2 = p1" "fixed_gen p1 u1 u2 = \<lparr>px = 64, py = - 2\<rparr>" for u1 u2
    by (simp_all add: fixed_gen_def p0_def p1_def)
  note tests = example_tests [folded p0_def p1_def g1_def, folded g2_def]
  have "try_place fixed_gen excludedZones g1 p0 (Suc 49) 0 1199742488
       \<lparr>bounds = 0, excluded = 0, nearby = 0\<rparr>
     = (Some (p1, 0), \<lparr>bounds = 0, excluded = 0, nearby = 0\<rparr>, 567906818)"
  proof (rule try_place_first)
    show "rng_next 1199742488 = (219562597 / 268435456, 3031308301)" by (rule example_draws)
    show "rng_next 3031308301 = (1093989093 / 2147483648, 567906818)" by (rule example_draws)
    show "p1 = fixed_gen p0 (219562597 / 268435456) (1093989093 / 2147483648)"
      by (simp add: gen)
  qed (rule tests)+
  then have tp1: "try_place fixed_gen excludedZones g1 p0 maxAttempts 0 1199742488
       \<lparr>bounds = 0, excluded = 0, nearby = 0\<rparr>
     = (Some (p1, 0), \<lparr>bounds = 0, excluded = 0, nearby = 0\<rparr>, 567906818)"
    by (simp add: maxAttempts_def)
  have tp2: "try_place fixed_gen excludedZones g2 p0 maxAttempts 0 2399472631
       \<lparr>bounds = 0, excluded = 0, nearby = 0\<rparr>
     = (None, \<lparr>bounds = 0, excluded = 0, nearby = 50\<rparr>, 872460203)"
    using try_place_all_near [where g = fixed_gen and p = p0 and n = 50, OF gen(1) tests(2,3,5)]
    by (simp add: maxAttempts_def example_skips)
  have tp3: "try_place fixed_gen excludedZones g2 p1 maxAttempts 0 2704026016
       \<lparr>bounds = 0, excluded = 0, nearby = 0\<rparr>
     = (None, \<lparr>bounds = 50, excluded = 0, nearby = 0\<rparr>, 1177013588)"
    using try_place_all_out [where g = fixed_gen and p = p1 and n = 50, OF gen(2) tests(6)]
    by (simp add: maxAttempts_def example_skips)
  have lb1: "loop_body fixed_gen excludedZones st0 = Inr (st1, False)"
  proof -
    have r: "rng_next (rng st0) = (1039823225 / 2147483648, 1199742488)"
      by (simp add: st0_def example_draws)
    have gi: "py_getitem (activeList st0)
        (py_int (1039823225 / 2147483648 * real (length (activeList st0)))) = Some p0"
      by (simp add: st0_def py_getitem_def py_int_def)
    have tp: "try_place fixed_gen excludedZones (grid st0) p0 maxAttempts 0 1199742488
       \<lparr>bounds = 0, excluded = 0, nearby = 0\<rparr>
      = (Some (p1, 0), \<lparr>bounds = 0, excluded = 0, nearby = 0\<rparr>, 567906818)"
      using tp1 by (simp add: st0_def)
    show ?thesis
      unfolding loop_body_found_eq [OF r gi tp]
      by (simp add: end_of_iteration_eq st0_def st1_def t1_def g2_def)
  qed
  have lb2: "loop_body fixed_gen excludedZones st1 = Inr (st2, False)"
  proof -
    have r: "rng_next (rng st1) = (1492380277 / 4294967296, 2399472631)"
      by (simp add: st1_def example_draws)
    have gi: "py_getitem (activeList st1)
        (py_int (1492380277 / 4294967296 * real (length (activeList st1)))) = Some p0"
      by (simp add: st1_def py_getitem_def py_int_def)
    have pp: "py_pop (activeList st1)
        (py_int (1492380277 / 4294967296 * real (length (activeList st1)))) = Some [p1]"
      by (simp add: st1_def py_pop_def py_int_def)
    have tp: "try_place fixed_gen excludedZones (grid st1) p0 maxAttempts 0 2399472631
       \<lparr>bounds = 0, excluded = 0, nearby = 0\<rparr>
      = (None, \<lparr>bounds = 0, excluded = 0, nearby = 50\<rparr>, 872460203)"
      using tp2 by (simp add: st1_def)
    show ?thesis
      unfolding loop_body_failed_eq [OF r gi tp pp]
      by (simp add: end_of_iteration_eq st1_def st2_def t2_def maxAttempts_def)
  qed
  have lb3: "loop_body fixed_gen excludedZones st2 = Inr (st3, False)"
  proof -
    have r: "rng_next (rng st2) = (1748992681 / 4294967296, 2704026016)"
      by (simp add: st2_def example_draws)
    have gi: "py_getitem (activeList st2)
        (py_int (1748992681 / 4294967296 * real (length (activeList st2)))) = Some p1"
      by (simp add: st2_def py_getitem_def py_int_def)
    have pp: "py_pop (activeList st2)
        (py_int (1748992681 / 4294967296 * real (length (activeList st2)))) = Some []"
      by (simp add: st2_def py_pop_def py_int_def)
    have tp: "try_place fixed_gen excludedZones (grid st2) p1 maxAttempts 0 2704026016
       \<lparr>bounds = 0, excluded = 0, nearby = 0\<rparr>
      = (None, \<lparr>bounds = 50, excluded = 0, nearby = 0\<rparr>, 1177013588)"
      using tp3 by (simp add: st2_def)
    show ?thesis
      unfolding loop_body_failed_eq [OF r gi tp pp]
      by (simp add: end_of_iteration_eq st2_def st3_def t3_def maxAttempts_def)
  qed
  have "main_loop fixed_gen excludedZones st0 = main_loop fixed_gen excludedZones st1"
    by (rule main_loop_step [OF _ lb1]) (simp add: loop_guard_def st0_def)
  also have "\<dots> = main_loop fixed_gen excludedZones st2"
    by (rule main_loop_step [OF _ lb2]) (simp add: loop_guard_def st1_def)
  also have "\<dots> = main_loop fixed_gen excludedZones st3"
    by (rule main_loop_step [OF _ lb3]) (simp add: loop_guard_def st2_def)
  also have "\<dots> = Some (Inr st3)"
    by (rule main_loop_stop) (simp add: loop_guard_def st3_def)
  finally have m: "main_loop fixed_gen excludedZones st0 = Some (Inr st3)" .
  have fin: "example_final = st3\<lparr>trace := trace st3 @
      [FinalLine (length (points st3)), PointsLine (points st3)]\<rparr>"
    by (simp add: example_final_def st3_def t3_def t2_def t1_def t0_def g2_def g1_def p0_def p1_def)
  show ?thesis
    using m [unfolded st0_def g1_def t0_def] example_initial [folded p0_def]
    by (simp add: run_def fin)
qed

section \<open>The claims about a run\<close>

lemma example_window: "in_window \<lparr>px = 70, py = 14\<rparr> \<lparr>px = 67, py = 6\<rparr>"
  by code_simp

lemma not_distance_lt: "\<not> distance_lt x1 y1 x2 y2 r \<longleftrightarrow> real_of_int r \<le> distance x1 y1 x2 y2"
  by (simp add: distance_lt_def not_less)

lemma not_excluded_zone:
  "\<not> isInExcludedZone zones p \<Longrightarrow> z \<in> set zones \<Longrightarrow>
     \<not> distance_lt (px p) (py p) (zx z) (zy z) (radius z)"
  by (induction zones) (auto split: if_splits)



text \<open>
  Claim C6. Every placed point lies within the domain: \<open>0 \<le> x < 72\<close> and
  \<open>0 \<le> y < 48\<close>, for the initial point and for every accepted candidate.
\<close>

theorem placed_points_in_bounds:
  assumes "run g zones seed = Some (Inr fin)" "p \<in> set (points fin)"
  shows "isInBounds p \<and> 0 \<le> px p \<and> px p < 72 \<and> 0 \<le> py p \<and> py p < 48"
proof -
  from assms(1) obtain st where "sim_inv zones st" "points fin = points st"
    by (rule run_Inr) simp
  then have "isInBounds p" using assms(2) by (simp add: sim_inv_def)
  then show ?thesis by (simp add: isInBounds_def gridWidth_def gridHeight_def)
qed

theorem placed_points_in_bounds_witness:
  "run fixed_gen excludedZones 12345 = Some (Inr example_final) \<and>
   \<lparr>px = 67, py = 6\<rparr> \<in> set (points example_final) \<and>
   isInBounds \<lparr>px = 67, py = 6\<rparr>"
proof -
  have m: "\<lparr>px = 67, py = 6\<rparr> \<in> set (points example_final)" by (simp add: example_final_def)
  show ?thesis using example_run m placed_points_in_bounds [OF example_run m] by simp
qed

text \<open>
  Claim C7. Every placed point lies outside every exclusion zone: its distance to the
  centre of each zone is at least the radius of the zone.
\<close>

theorem placed_points_outside_zones:
  assumes "run g zones seed = Some (Inr fin)" "p \<in> set (points fin)" "z \<in> set zones"
  shows "real_of_int (radius z) \<le> distance (px p) (py p) (zx z) (zy z)"
proof -
  from assms(1) obtain st where "sim_inv zones st" "points fin = points st"
    by (rule run_Inr) simp
  then have "\<not> isInExcludedZone zones p" using assms(2) by (simp add: sim_inv_def)
  then have "\<not> distance_lt (px p) (py p) (zx z) (zy z) (radius z)"
    using assms(3) by (rule not_excluded_zone)
  then show ?thesis by (simp only: not_distance_lt)
qed

theorem placed_points_outside_zones_witness:
  "run fixed_gen excludedZones 12345 = Some (Inr example_final) \<and>
   \<lparr>px = 67, py = 6\<rparr> \<in> set (points example_final) \<and>
   \<lparr>zx = 36, zy = 24, radius = 1\<rparr> \<in> set excludedZones \<and>
   real_of_int (radius \<lparr>zx = 36, zy = 24, radius = 1\<rparr>)
     \<le> distance (px \<lparr>px = 67, py = 6\<rparr>) (py \<lparr>px = 67, py = 6\<rparr>)
          (zx \<lparr>zx = 36, zy = 24, radius = 1\<rparr>) (zy \<lparr>zx = 36, zy = 24, radius = 1\<rparr>)"
proof -
  have m: "\<lparr>px = 67, py = 6\<rparr> \<in> set (points example_final)" by (simp add: example_final_def)
  have z: "\<lparr>zx = 36, zy = 24, radius = 1\<rparr> \<in> set excludedZones" by (simp add: excludedZones_def)
  show ?thesis using example_run m z placed_points_outside_zones [OF example_run m z] by blast
qed

text \<open>
  Claim C2. Two placed points whose grid cells lie within the 5 by 5 search window of
  each other are at distance at least \<open>minDistance\<close>; a candidate is rejected only at a
  distance strictly below it.
\<close>

theorem placed_points_min_distance:
  assumes "run g zones seed = Some (Inr fin)" "i < j" "j < length (points fin)"
    "in_window (points fin ! i) (points fin ! j)"
  shows "real_of_int minDistance
    \<le> distance (px (points fin ! i)) (py (points fin ! i))
         (px (points fin ! j)) (py (points fin ! j))"
proof -
  from assms(1) obtain st where "sim_inv zones st" "points fin = points st"
    by (rule run_Inr) simp
  then have "\<not> too_close (points fin ! i) (points fin ! j)"
    using assms(2,3,4) by (simp add: sim_inv_def)
  then show ?thesis by (simp only: too_close_def not_distance_lt)
qed

theorem placed_points_min_distance_witness:
  "run fixed_gen excludedZones 12345 = Some (Inr example_final) \<and>
   (0::nat) < 1 \<and> 1 < length (points example_final) \<and>
   in_window (points example_final ! 0) (points example_final ! 1) \<and>
   real_of_int minDistance
    \<le> distance (px (points example_final ! 0)) (py (points example_final ! 0))
         (px (points example_final ! 1)) (py (points example_final ! 1))"
proof -
  have a: "(0::nat) < 1" by simp
  have b: "1 < length (points example_final)" by (simp add: example_final_def)
  have c: "in_window (points example_final ! 0) (points example_final ! 1)"
    using example_window by (simp add: example_final_def)
  show ?thesis using example_run a b c placed_points_min_distance [OF example_run a b c] by blast
qed






end
